theory Spec2Isabelle
  imports Complex_Main
begin

section \<open>Case-duration histogram binning (gui/overview\_screen.py)\<close>

text \<open>
  The binning code of \<^verbatim>\<open>src/gui/overview_screen.py\<close>:
  \<^verbatim>\<open>get_potential_extra_bins\<close>, \<^verbatim>\<open>choose_extra_bins\<close>,
  \<^verbatim>\<open>get_num_cases_with_durations\<close> and
  \<^verbatim>\<open>compute_binned_distribution_case_durations\<close>.

  The four quantile values are read with \<^verbatim>\<open>df_qs[...].values[0]\<close>, so they are NumPy
  integer scalars, and so is everything computed from them; \<^verbatim>\<open>num_bins\<close> and
  \<^verbatim>\<open>bin_width\<close> are Python integers. All of them are \<open>int\<close> in the model, and quantile
  arguments are exact rationals. \<^verbatim>\<open>//\<close> is floor division, which is \<open>div\<close> on \<open>int\<close>;
  \<^verbatim>\<open>/\<close> is true division, taken in \<open>rat\<close>.

  Division by zero has three outcomes in the source, and the model has all three:
  \<^item> on Python integers (\<^verbatim>\<open>1 / (2 * num_bins)\<close>, line 369) it raises
    \<^verbatim>\<open>ZeroDivisionError\<close>;
  \<^item> a NumPy scalar divided with \<^verbatim>\<open>/\<close> by zero gives \<^verbatim>\<open>inf\<close>, \<^verbatim>\<open>-inf\<close> or \<^verbatim>\<open>nan\<close> and a
    \<^verbatim>\<open>RuntimeWarning\<close>, no exception; at line 382 the following \<^verbatim>\<open>int(...)\<close> raises
    \<^verbatim>\<open>OverflowError\<close> on an infinity and \<^verbatim>\<open>ValueError\<close> on \<^verbatim>\<open>nan\<close>, at line 383 the
    comparison goes on;
  \<^item> a NumPy integer scalar divided with \<^verbatim>\<open>//\<close> by zero gives 0 and a \<^verbatim>\<open>RuntimeWarning\<close>
    (line 385).

  The source computes the two quotients of lines 382 and 383 in double precision. The model
  takes them exactly, which is the same ceiling and the same comparison as long as the
  durations are far below \<open>2^53\<close>, as numbers of days, hours or seconds are.
\<close>

subsection \<open>Data\<close>

type_synonym bin = "int \<times> int"

type_synonym duration_interval = "int option \<times> int option"

text \<open>
  \<open>ZeroDivisionError\<close>, \<open>OverflowError\<close> and \<open>ValueError\<close> are the exceptions that the
  arithmetic of the source raises. \<open>InvalidConfiguration\<close> is the error kind that the
  specification names; no statement of the source raises it.
\<close>

datatype error = ZeroDivisionError | OverflowError | ValueError | InvalidConfiguration

text \<open>
  The \<^verbatim>\<open>FeatureProcessor\<close> is used through two queries against its data model:
  the value of \<^verbatim>\<open>QUANTILE(CALC_THROUGHPUT(...), q)\<close> for a time unit and a quantile, and
  the value of \<^verbatim>\<open>SUM(CASE WHEN ... THEN 1 ELSE 0 END)\<close> for a time unit and an interval of
  durations. The query engine is not part of the repository, so both are fields.
\<close>

record feature_processor =
  quantile_value :: "string \<Rightarrow> rat \<Rightarrow> int"
  num_cases :: "string \<Rightarrow> duration_interval \<Rightarrow> nat"

subsection \<open>\<^verbatim>\<open>get_num_cases_with_durations\<close>\<close>

text \<open>
  One column per interval, named \<^verbatim>\<open>str(d)\<close>, in the order of the intervals; the interval
  \<^verbatim>\<open>(None, None)\<close> is skipped. The column name is kept as the interval itself.
\<close>

definition get_num_cases_with_durations ::
  "feature_processor \<Rightarrow> duration_interval list \<Rightarrow> string \<Rightarrow> (duration_interval \<times> nat) list" where
  "get_num_cases_with_durations fp duration_intervals time_unit =
     map (\<lambda>d. (d, num_cases fp time_unit d))
       (filter (\<lambda>d. d \<noteq> (None, None)) duration_intervals)"

subsection \<open>\<^verbatim>\<open>get_potential_extra_bins\<close>\<close>

text \<open>One round of the loop over \<^verbatim>\<open>i\<close>: each of the two lists may get one more bin.\<close>

definition potential_step ::
  "int \<Rightarrow> int \<Rightarrow> int \<Rightarrow> int \<Rightarrow> int \<Rightarrow> bin list \<times> bin list \<Rightarrow> int \<Rightarrow> bin list \<times> bin list" where
  "potential_step lower_end upper_end bin_width min_val max_val acc i =
     (let potential_lowers = fst acc; potential_uppers = snd acc in
      (if lower_end - i * bin_width > min_val
       then potential_lowers @ [(lower_end - i * bin_width, lower_end - (i - 1) * bin_width - 1)]
       else potential_lowers,
       if upper_end + i * bin_width < max_val
       then potential_uppers @ [(upper_end + 1 + (i - 1) * bin_width, upper_end + i * bin_width)]
       else potential_uppers))"

definition get_potential_extra_bins ::
  "int \<Rightarrow> int \<Rightarrow> int \<Rightarrow> int \<Rightarrow> int \<Rightarrow> int \<Rightarrow> bin list \<times> bin list" where
  "get_potential_extra_bins lower_end upper_end bin_width num_bins min_val max_val =
     foldl (potential_step lower_end upper_end bin_width min_val max_val) ([], []) [1..num_bins]"

subsection \<open>\<^verbatim>\<open>choose_extra_bins\<close>\<close>

text \<open>
  The loop \<^verbatim>\<open>for i in range(num_bins)\<close> with its five variables; the first argument
  counts the rounds that are left.
\<close>

fun choose_loop ::
  "nat \<Rightarrow> bin list \<Rightarrow> bin list \<Rightarrow> bin list \<Rightarrow> bin list \<Rightarrow> bool \<Rightarrow> bin list \<times> bin list" where
  "choose_loop 0 potential_lowers potential_uppers extra_bins_lower extra_bins_upper take_from_upper =
     (extra_bins_lower, extra_bins_upper)"
| "choose_loop (Suc k) potential_lowers potential_uppers extra_bins_lower extra_bins_upper take_from_upper =
     (if potential_lowers = [] \<and> potential_uppers = [] then (extra_bins_lower, extra_bins_upper)
      else if (potential_lowers \<noteq> [] \<and> potential_uppers = [])
              \<or> (potential_lowers \<noteq> [] \<and> \<not> take_from_upper)
      then choose_loop k (butlast potential_lowers) potential_uppers
             ([last potential_lowers] @ extra_bins_lower) extra_bins_upper True
      else choose_loop k potential_lowers (tl potential_uppers)
             extra_bins_lower (extra_bins_upper @ [hd potential_uppers]) False)"

definition choose_extra_bins :: "bin list \<Rightarrow> bin list \<Rightarrow> int \<Rightarrow> bin list \<times> bin list" where
  "choose_extra_bins potential_lowers potential_uppers num_bins =
     (if potential_lowers @ potential_uppers = [] then ([], [])
      else choose_loop (nat num_bins) potential_lowers potential_uppers [] [] True)"

subsection \<open>\<^verbatim>\<open>compute_binned_distribution_case_durations\<close>\<close>

text \<open>The local variables, one definition per assignment of the source.\<close>

definition min_percentile :: rat where
  "min_percentile = 0"

definition max_percentile :: rat where
  "max_percentile = 1"

definition lower_percentile :: "int \<Rightarrow> rat" where
  "lower_percentile num_bins = 1 / of_int (2 * num_bins)"

definition upper_percentile :: "int \<Rightarrow> rat" where
  "upper_percentile num_bins = 1 - lower_percentile num_bins"

definition min_val :: "feature_processor \<Rightarrow> string \<Rightarrow> int" where
  "min_val fp time_unit = quantile_value fp time_unit min_percentile"

definition max_val :: "feature_processor \<Rightarrow> string \<Rightarrow> int" where
  "max_val fp time_unit = quantile_value fp time_unit max_percentile"

definition lower_end :: "feature_processor \<Rightarrow> int \<Rightarrow> string \<Rightarrow> int" where
  "lower_end fp num_bins time_unit = quantile_value fp time_unit (lower_percentile num_bins)"

definition upper_end :: "feature_processor \<Rightarrow> int \<Rightarrow> string \<Rightarrow> int" where
  "upper_end fp num_bins time_unit = quantile_value fp time_unit (upper_percentile num_bins)"

text \<open>Line 382: \<^verbatim>\<open>int(np.ceil((upper_end - lower_end) / (num_bins - 2)))\<close>.\<close>

definition ceil_bin_width :: "feature_processor \<Rightarrow> int \<Rightarrow> string \<Rightarrow> int" where
  "ceil_bin_width fp num_bins time_unit =
     \<lceil>(of_int (upper_end fp num_bins time_unit - lower_end fp num_bins time_unit) :: rat)
        / of_int (num_bins - 2)\<rceil>"

text \<open>
  Lines 383 and 384: the width is reduced by one when the whole range is narrow. For a
  width of zero the quotient is \<^verbatim>\<open>inf\<close>, \<^verbatim>\<open>-inf\<close> or \<^verbatim>\<open>nan\<close>; whatever the comparison
  gives then, \<^verbatim>\<open>bin_width > 1\<close> is false and the width stays zero.
\<close>

definition bin_width :: "feature_processor \<Rightarrow> int \<Rightarrow> string \<Rightarrow> int" where
  "bin_width fp num_bins time_unit =
     (let w = ceil_bin_width fp num_bins time_unit in
      if (of_int (max_val fp time_unit - min_val fp time_unit + 1) :: rat) / of_int w < of_int num_bins
         \<and> w > 1
      then w - 1 else w)"

text \<open>Line 385: the floor division of a NumPy integer scalar; by a width of zero it is 0.\<close>

definition bins_within :: "feature_processor \<Rightarrow> int \<Rightarrow> string \<Rightarrow> int" where
  "bins_within fp num_bins time_unit =
     (if bin_width fp num_bins time_unit = 0 then 0
      else (upper_end fp num_bins time_unit - lower_end fp num_bins time_unit + 1)
             div bin_width fp num_bins time_unit)"

definition core_bins :: "feature_processor \<Rightarrow> int \<Rightarrow> string \<Rightarrow> bin list" where
  "core_bins fp num_bins time_unit =
     map (\<lambda>i. (lower_end fp num_bins time_unit + i * bin_width fp num_bins time_unit,
               lower_end fp num_bins time_unit + (i + 1) * bin_width fp num_bins time_unit - 1))
       [0..bins_within fp num_bins time_unit - 1]"

definition diff_bins :: "feature_processor \<Rightarrow> int \<Rightarrow> string \<Rightarrow> int" where
  "diff_bins fp num_bins time_unit = num_bins - 2 - bins_within fp num_bins time_unit"

definition upper_end_within :: "feature_processor \<Rightarrow> int \<Rightarrow> string \<Rightarrow> int" where
  "upper_end_within fp num_bins time_unit =
     lower_end fp num_bins time_unit
       + bin_width fp num_bins time_unit * bins_within fp num_bins time_unit - 1"

definition potential_bins :: "feature_processor \<Rightarrow> int \<Rightarrow> string \<Rightarrow> bin list \<times> bin list" where
  "potential_bins fp num_bins time_unit =
     get_potential_extra_bins (lower_end fp num_bins time_unit) (upper_end_within fp num_bins time_unit)
       (bin_width fp num_bins time_unit) (diff_bins fp num_bins time_unit)
       (min_val fp time_unit) (max_val fp time_unit)"

definition extra_bins :: "feature_processor \<Rightarrow> int \<Rightarrow> string \<Rightarrow> bin list \<times> bin list" where
  "extra_bins fp num_bins time_unit =
     choose_extra_bins (fst (potential_bins fp num_bins time_unit))
       (snd (potential_bins fp num_bins time_unit)) (diff_bins fp num_bins time_unit)"

definition min_inner_bin :: "feature_processor \<Rightarrow> int \<Rightarrow> string \<Rightarrow> int" where
  "min_inner_bin fp num_bins time_unit =
     (let extra_bins_lower = fst (extra_bins fp num_bins time_unit) in
      if length extra_bins_lower > 0 then fst (hd extra_bins_lower)
      else lower_end fp num_bins time_unit)"

definition max_inner_bin :: "feature_processor \<Rightarrow> int \<Rightarrow> string \<Rightarrow> int" where
  "max_inner_bin fp num_bins time_unit =
     (let extra_bins_upper = snd (extra_bins fp num_bins time_unit) in
      if length extra_bins_upper > 0 then snd (last extra_bins_upper)
      else upper_end_within fp num_bins time_unit)"

text \<open>Lines 408 to 410: the two outlier bins and the assembled list.\<close>

definition all_bins :: "feature_processor \<Rightarrow> int \<Rightarrow> string \<Rightarrow> bin list" where
  "all_bins fp num_bins time_unit =
     (let min_bin = (min_val fp time_unit, min_inner_bin fp num_bins time_unit - 1);
          max_bin = (max_inner_bin fp num_bins time_unit + 1, max_val fp time_unit)
      in [min_bin] @ fst (extra_bins fp num_bins time_unit) @ core_bins fp num_bins time_unit
           @ snd (extra_bins fp num_bins time_unit) @ [max_bin])"

text \<open>
  The bin list of a call, or the exception that ends it:
  \<^item> line 369, \<^verbatim>\<open>1 / (2 * num_bins)\<close> on Python integers: \<^verbatim>\<open>ZeroDivisionError\<close> for
    \<^verbatim>\<open>num_bins = 0\<close>;
  \<^item> line 382, \<^verbatim>\<open>int(np.ceil((upper_end - lower_end) / (num_bins - 2)))\<close> for
    \<^verbatim>\<open>num_bins = 2\<close>: the quotient is \<^verbatim>\<open>nan\<close> when the two quantile values are equal, and
    \<^verbatim>\<open>int\<close> raises \<^verbatim>\<open>ValueError\<close>; otherwise it is an infinity, and \<^verbatim>\<open>int\<close> raises
    \<^verbatim>\<open>OverflowError\<close>.

  A width of zero ends nothing: lines 383 and 385 divide by it, with a \<^verbatim>\<open>RuntimeWarning\<close>
  each, and the call goes on with \<^verbatim>\<open>bins_within = 0\<close>.

  The data model answers each quantile with one value. For \<^verbatim>\<open>num_bins = 1\<close> the lower and
  the upper quantile are both 1/2 and the two columns of the frame have the same name; what
  \<^verbatim>\<open>df_qs['0.5']\<close> is then depends on the frame, and no theorem below is about that call.
\<close>

definition binned_intervals :: "feature_processor \<Rightarrow> int \<Rightarrow> string \<Rightarrow> error + bin list" where
  "binned_intervals fp num_bins time_unit =
     (if 2 * num_bins = 0 then Inl ZeroDivisionError
      else if num_bins - 2 = 0 then
        (if upper_end fp num_bins time_unit - lower_end fp num_bins time_unit = 0
         then Inl ValueError else Inl OverflowError)
      else Inr (all_bins fp num_bins time_unit))"

text \<open>
  The returned table: one row per bin with the columns \<^verbatim>\<open>range\<close> and \<^verbatim>\<open>cases\<close>
  (the transposed result of \<^verbatim>\<open>get_num_cases_with_durations\<close>).
\<close>

definition compute_binned_distribution_case_durations ::
  "feature_processor \<Rightarrow> int \<Rightarrow> string \<Rightarrow> error + (duration_interval \<times> nat) list" where
  "compute_binned_distribution_case_durations fp num_bins time_unit =
     (case binned_intervals fp num_bins time_unit of
        Inl e \<Rightarrow> Inl e
      | Inr bins \<Rightarrow>
          Inr (get_num_cases_with_durations fp (map (\<lambda>(lo, hi). (Some lo, Some hi)) bins) time_unit))"

subsection \<open>Properties of a bin list\<close>

text \<open>Adjacent bins touch: the next bin starts one above the end of the previous one.\<close>

fun contiguous :: "bin list \<Rightarrow> bool" where
  "contiguous (a # b # bs) = (snd a + 1 = fst b \<and> contiguous (b # bs))"
| "contiguous _ = True"

text \<open>The intervals of the returned rows, as pairs of integers again.\<close>

definition row_bins :: "(duration_interval \<times> nat) list \<Rightarrow> bin list" where
  "row_bins rows =
     concat (map (\<lambda>r. case fst r of (Some lo, Some hi) \<Rightarrow> [(lo, hi)] | _ \<Rightarrow> []) rows)"

definition total_cases :: "(duration_interval \<times> nat) list \<Rightarrow> nat" where
  "total_cases rows = sum_list (map snd rows)"

text \<open>A data model that holds the given durations and counts every interval exactly.\<close>

definition count_between :: "int list \<Rightarrow> duration_interval \<Rightarrow> nat" where
  "count_between ds d =
     (case d of
        (None, None) \<Rightarrow> 0
      | (None, Some hi) \<Rightarrow> length (filter (\<lambda>x. x \<le> hi) ds)
      | (Some lo, None) \<Rightarrow> length (filter (\<lambda>x. lo \<le> x) ds)
      | (Some lo, Some hi) \<Rightarrow> length (filter (\<lambda>x. lo \<le> x \<and> x \<le> hi) ds))"

text \<open>
  The number of bins that \<^verbatim>\<open>choose_extra_bins\<close> takes from the lower pool in \<open>k\<close>
  rounds, for pools of \<open>a\<close> lower and \<open>b\<close> upper candidates; \<open>t\<close> is the value of
  \<^verbatim>\<open>take_from_upper\<close> at the start.
\<close>

definition lower_picks :: "bool \<Rightarrow> nat \<Rightarrow> nat \<Rightarrow> nat \<Rightarrow> nat" where
  "lower_picks t k a b =
     (let T = min k (a + b) in min a (max (if t then T div 2 else (T + 1) div 2) (T - b)))"

subsection \<open>Data models used as concrete inputs\<close>

text \<open>
  The durations 1 to 100, each once. The quantile is the nearest-rank one, so the values at
  0, 1/20, 19/20 and 1 are 1, 5, 95 and 100.
\<close>

definition fp_1_100 :: feature_processor where
  "fp_1_100 = \<lparr>quantile_value = (\<lambda>tu q. max 1 (min 100 \<lceil>100 * q\<rceil>)),
               num_cases = (\<lambda>tu. count_between [1..100])\<rparr>"

text \<open>
  One hundred durations with a long tail on both sides: four below 100, ninety-two from
  100 to 109, four above 109. The fifth and sixth smallest are 100, the fifth and sixth
  largest are 109.
\<close>

definition gap_durations :: "int list" where
  "gap_durations = [0, 96, 97, 98] @ replicate 10 100 @ concat (map (replicate 9) [101..108])
                     @ replicate 10 109 @ [110, 111, 112, 209]"

definition fp_gap :: feature_processor where
  "fp_gap = \<lparr>quantile_value =
                (\<lambda>tu q. if q \<le> 0 then 0 else if q \<le> 1 / 20 then 100 else if q < 1 then 109 else 209),
             num_cases = (\<lambda>tu. count_between gap_durations)\<rparr>"

text \<open>Twenty cases that all took 7.\<close>

definition fp_const :: feature_processor where
  "fp_const = \<lparr>quantile_value = (\<lambda>tu q. 7), num_cases = (\<lambda>tu. count_between (replicate 20 7))\<rparr>"

text \<open>Six cases with two distinct durations.\<close>

definition fp_two :: feature_processor where
  "fp_two = \<lparr>quantile_value = (\<lambda>tu q. if q < 1 / 2 then 0 else 1),
             num_cases = (\<lambda>tu. count_between [0, 0, 0, 1, 1, 1])\<rparr>"

text \<open>
  A second data model for the durations 1 to 100. It answers the quantile 1/2 and the
  interval \<^verbatim>\<open>(None, None)\<close> differently, which a call with ten bins never asks for.
\<close>

definition fp_1_100_variant :: feature_processor where
  "fp_1_100_variant =
     \<lparr>quantile_value = (\<lambda>tu q. if q = 1 / 2 then 0 else max 1 (min 100 \<lceil>100 * q\<rceil>)),
      num_cases = (\<lambda>tu d. if d = (None, None) then 7 else count_between [1..100] d)\<rparr>"

section \<open>The candidate pools\<close>

text \<open>
  The loop of \<^verbatim>\<open>get_potential_extra_bins\<close> lists the candidates of each side from the
  core outwards: the first lower candidate ends just below \<^verbatim>\<open>lower_end\<close>, the first upper
  candidate starts just above \<^verbatim>\<open>upper_end\<close>.
\<close>

lemma potential_fold:
  "foldl (potential_step le ue bw mn mx) (pl, pu) is =
     (pl @ map (\<lambda>i. (le - i * bw, le - (i - 1) * bw - 1)) (filter (\<lambda>i. le - i * bw > mn) is),
      pu @ map (\<lambda>i. (ue + 1 + (i - 1) * bw, ue + i * bw)) (filter (\<lambda>i. ue + i * bw < mx) is))"
  by (induction "is" arbitrary: pl pu) (simp_all add: potential_step_def)

lemma get_potential_extra_bins_eq:
  "get_potential_extra_bins le ue bw n mn mx =
     (map (\<lambda>i. (le - i * bw, le - (i - 1) * bw - 1)) (filter (\<lambda>i. le - i * bw > mn) [1..n]),
      map (\<lambda>i. (ue + 1 + (i - 1) * bw, ue + i * bw)) (filter (\<lambda>i. ue + i * bw < mx) [1..n]))"
  by (simp add: get_potential_extra_bins_def potential_fold)

section \<open>The selection of extra bins\<close>

subsection \<open>Counting the picks\<close>

lemma lower_picks_le_a: "lower_picks t k a b \<le> a"
  by (simp add: lower_picks_def Let_def)

lemma lower_picks_le_T: "lower_picks t k a b \<le> min k (a + b)"
proof -
  define T where "T = min k (a + b)"
  have "T div 2 \<le> T" "(T + 1) div 2 \<le> T \<or> T = 0" "T - b \<le> T" by auto
  moreover have "T = 0 \<Longrightarrow> (T + 1) div 2 = 0" by simp
  ultimately have "max (if t then T div 2 else (T + 1) div 2) (T - b) \<le> T"
    by (cases t) auto
  then show ?thesis unfolding lower_picks_def Let_def T_def[symmetric]
    by (meson min.coboundedI2)
qed

lemma lower_picks_ge: "min k (a + b) - b \<le> lower_picks t k a b"
proof -
  define T where "T = min k (a + b)"
  have "T - b \<le> a" by (simp add: T_def)
  moreover have "T - b \<le> max (if t then T div 2 else (T + 1) div 2) (T - b)" by simp
  ultimately show ?thesis unfolding lower_picks_def Let_def T_def[symmetric] by simp
qed

lemma max_half_diff:
  "max (Suc (T div 2)) (Suc T - b) = Suc (max (T div 2) (T - b))"
  by (cases "b \<le> T") (simp_all add: Suc_diff_le)

text \<open>A round that takes from the lower pool because it is the lower pool's turn.\<close>

lemma lower_picks_lower_turn:
  assumes "0 < a"
  shows "lower_picks False (Suc k) a b = Suc (lower_picks True k (a - 1) b)"
proof -
  obtain a' where a: "a = Suc a'" using assms by (cases a) auto
  define T where "T = min k (a' + b)"
  have T1: "min (Suc k) (a + b) = Suc T" by (simp add: a T_def)
  have "lower_picks False (Suc k) a b = min a (max ((Suc T + 1) div 2) (Suc T - b))"
    unfolding lower_picks_def Let_def T1 by simp
  also have "\<dots> = Suc (min a' (max (T div 2) (T - b)))"
    using max_half_diff[of T b] by (simp add: a)
  also have "\<dots> = Suc (lower_picks True k (a - 1) b)"
    unfolding lower_picks_def Let_def by (simp add: a T_def)
  finally show ?thesis .
qed

lemma lower_picks_no_upper: "lower_picks t k a 0 = min k a"
proof -
  define T where "T = min k a"
  have "(if t then T div 2 else (T + 1) div 2) \<le> T"
    by (cases t) auto
  then have "max (if t then T div 2 else (T + 1) div 2) T = T"
    by (rule max_absorb2)
  then show ?thesis unfolding lower_picks_def Let_def
    by (simp add: T_def[symmetric]) (simp add: T_def)
qed

text \<open>A round that takes from the lower pool because the upper pool is empty.\<close>

lemma lower_picks_upper_empty:
  assumes "0 < a"
  shows "lower_picks t (Suc k) a 0 = Suc (lower_picks True k (a - 1) 0)"
proof -
  obtain a' where a: "a = Suc a'" using assms by (cases a) auto
  show ?thesis by (simp add: lower_picks_no_upper a)
qed

text \<open>A round that takes from the upper pool on its turn.\<close>

lemma lower_picks_upper_turn:
  assumes "0 < b"
  shows "lower_picks True (Suc k) a b = lower_picks False k a (b - 1)"
    and "min (Suc k) (a + b) - lower_picks True (Suc k) a b
         = Suc (min k (a + (b - 1)) - lower_picks False k a (b - 1))"
proof -
  obtain b' where b: "b = Suc b'" using assms by (cases b) auto
  define T where "T = min k (a + b')"
  have T1: "min (Suc k) (a + b) = Suc T" by (simp add: b T_def)
  have "lower_picks True (Suc k) a b = min a (max (Suc T div 2) (Suc T - Suc b'))"
    unfolding lower_picks_def Let_def T1 by (simp add: b)
  also have "\<dots> = lower_picks False k a (b - 1)"
    unfolding lower_picks_def Let_def by (simp add: b T_def)
  finally show eq: "lower_picks True (Suc k) a b = lower_picks False k a (b - 1)" .
  have "lower_picks False k a (b - 1) \<le> min k (a + (b - 1))"
    by (rule lower_picks_le_T)
  then show "min (Suc k) (a + b) - lower_picks True (Suc k) a b
         = Suc (min k (a + (b - 1)) - lower_picks False k a (b - 1))"
    unfolding eq T1 by (simp add: b T_def Suc_diff_le)
qed

lemma lower_picks_no_lower: "lower_picks t k 0 b = 0"
  by (simp add: lower_picks_def Let_def)

subsection \<open>The loop in closed form\<close>

text \<open>
  By induction on the rounds, with all five loop variables generalised: the lower picks are
  the last \<open>lower_picks\<close> candidates of the lower pool, in the pool's order, and the upper
  picks are the first candidates of the upper pool.
\<close>

lemma choose_loop_closed:
  "choose_loop k pl pu el eu t =
     (drop (length pl - lower_picks t k (length pl) (length pu)) pl @ el,
      eu @ take (min k (length pl + length pu) - lower_picks t k (length pl) (length pu)) pu)"
proof (induction k arbitrary: pl pu el eu t)
  case 0
  have "lower_picks t 0 (length pl) (length pu) = 0"
    by (simp add: lower_picks_def Let_def)
  then show ?case by simp
next
  case (Suc k)
  let ?a = "length pl" and ?b = "length pu"
  show ?case
  proof (cases "pl = [] \<and> pu = []")
    case True
    then show ?thesis by simp
  next
    case ne: False
    show ?thesis
    proof (cases "(pl \<noteq> [] \<and> pu = []) \<or> (pl \<noteq> [] \<and> \<not> t)")
      case True
      then obtain ys y where pl: "pl = ys @ [y]" by (cases pl rule: rev_cases) auto
      have l: "lower_picks t (Suc k) ?a ?b = Suc (lower_picks True k (length ys) ?b)"
      proof (cases "pu = []")
        case True
        then show ?thesis using lower_picks_upper_empty[of ?a t k] by (simp add: pl)
      next
        case False
        with True have "\<not> t" by simp
        then show ?thesis using lower_picks_lower_turn[of ?a k ?b] by (simp add: pl)
      qed
      have le: "lower_picks True k (length ys) ?b \<le> length ys" by (rule lower_picks_le_a)
      have "choose_loop (Suc k) pl pu el eu t
            = choose_loop k ys pu ([y] @ el) eu True"
        using True ne by (simp add: pl)
      also have "\<dots> = (drop (length ys - lower_picks True k (length ys) ?b) ys @ [y] @ el,
          eu @ take (min k (length ys + ?b) - lower_picks True k (length ys) ?b) pu)"
        by (rule Suc.IH)
      finally have r: "choose_loop (Suc k) pl pu el eu t =
          (drop (length ys - lower_picks True k (length ys) ?b) ys @ [y] @ el,
           eu @ take (min k (length ys + ?b) - lower_picks True k (length ys) ?b) pu)" .
      have d: "drop (?a - lower_picks t (Suc k) ?a ?b) pl
               = drop (length ys - lower_picks True k (length ys) ?b) ys @ [y]"
        unfolding l using le by (simp add: pl)
      have m: "min (Suc k) (?a + ?b) - lower_picks t (Suc k) ?a ?b
               = min k (length ys + ?b) - lower_picks True k (length ys) ?b"
        unfolding l by (simp add: pl)
      show ?thesis unfolding r d m by simp
    next
      case False
      with ne obtain x xs where pu: "pu = x # xs" by (cases pu) auto
      from False have t: "pl = [] \<or> t" by auto
      have l: "lower_picks t (Suc k) ?a ?b = lower_picks False k ?a (length xs)"
       and u: "min (Suc k) (?a + ?b) - lower_picks t (Suc k) ?a ?b
              = Suc (min k (?a + length xs) - lower_picks False k ?a (length xs))"
      proof -
        show "lower_picks t (Suc k) ?a ?b = lower_picks False k ?a (length xs)"
        proof (cases "pl = []")
          case True
          then show ?thesis by (simp add: lower_picks_no_lower)
        next
          case False
          with t have "t" by simp
          then show ?thesis using lower_picks_upper_turn(1)[of ?b k ?a] by (simp add: pu)
        qed
        show "min (Suc k) (?a + ?b) - lower_picks t (Suc k) ?a ?b
              = Suc (min k (?a + length xs) - lower_picks False k ?a (length xs))"
        proof (cases "pl = []")
          case True
          then show ?thesis by (simp add: lower_picks_no_lower pu)
        next
          case False
          with t have "t" by simp
          then show ?thesis using lower_picks_upper_turn(2)[of ?b k ?a] by (simp add: pu)
        qed
      qed
      have "choose_loop (Suc k) pl pu el eu t
            = choose_loop k pl xs el (eu @ [x]) False"
        using t by (auto simp: pu)
      also have "\<dots> = (drop (?a - lower_picks False k ?a (length xs)) pl @ el,
          (eu @ [x]) @ take (min k (?a + length xs) - lower_picks False k ?a (length xs)) xs)"
        by (rule Suc.IH)
      finally have r: "choose_loop (Suc k) pl pu el eu t =
          (drop (?a - lower_picks False k ?a (length xs)) pl @ el,
           (eu @ [x]) @ take (min k (?a + length xs) - lower_picks False k ?a (length xs)) xs)" .
      have tk: "take (min (Suc k) (?a + ?b) - lower_picks t (Suc k) ?a ?b) pu
                = x # take (min k (?a + length xs) - lower_picks False k ?a (length xs)) xs"
        unfolding u by (simp add: pu)
      show ?thesis by (simp only: r tk) (simp add: l)
    qed
  qed
qed

lemma choose_extra_bins_closed:
  "choose_extra_bins pl pu n =
     (drop (length pl - lower_picks True (nat n) (length pl) (length pu)) pl,
      take (min (nat n) (length pl + length pu) - lower_picks True (nat n) (length pl) (length pu)) pu)"
proof (cases "pl @ pu = []")
  case True
  then show ?thesis by (simp add: choose_extra_bins_def)
next
  case False
  then show ?thesis
    unfolding choose_extra_bins_def using choose_loop_closed[of "nat n" pl pu "[]" "[]" True]
    by simp
qed

lemma choose_extra_bins_lengths:
  "length (fst (choose_extra_bins pl pu n)) = lower_picks True (nat n) (length pl) (length pu)"
  "length (snd (choose_extra_bins pl pu n))
     = min (nat n) (length pl + length pu) - lower_picks True (nat n) (length pl) (length pu)"
proof -
  let ?l = "lower_picks True (nat n) (length pl) (length pu)"
  have "?l \<le> length pl" by (rule lower_picks_le_a)
  then show "length (fst (choose_extra_bins pl pu n)) = ?l"
    by (simp add: choose_extra_bins_closed)
  have "min (nat n) (length pl + length pu) - length pu \<le> ?l" by (rule lower_picks_ge)
  then have "min (nat n) (length pl + length pu) - ?l \<le> length pu" by linarith
  then show "length (snd (choose_extra_bins pl pu n))
     = min (nat n) (length pl + length pu) - ?l"
    by (simp add: choose_extra_bins_closed)
qed

lemma choose_extra_bins_total:
  "length (fst (choose_extra_bins pl pu n)) + length (snd (choose_extra_bins pl pu n))
     = min (nat n) (length pl + length pu)"
  using lower_picks_le_T[of True "nat n" "length pl" "length pu"]
  by (simp add: choose_extra_bins_lengths)

text \<open>
  In the branch that reads \<^verbatim>\<open>potential_uppers[0]\<close> the upper pool is not empty, and in the
  branch that reads \<^verbatim>\<open>potential_lowers[-1]\<close> the lower pool is not empty: the loop raises no
  \<^verbatim>\<open>IndexError\<close>.
\<close>

lemma choose_loop_reads_in_range:
  "\<not> (pl = [] \<and> pu = []) \<Longrightarrow> \<not> ((pl \<noteq> [] \<and> pu = []) \<or> (pl \<noteq> [] \<and> \<not> t)) \<Longrightarrow> pu \<noteq> []"
  "(pl \<noteq> [] \<and> pu = []) \<or> (pl \<noteq> [] \<and> \<not> t) \<Longrightarrow> pl \<noteq> []"
  by auto

subsection \<open>Claims about \<^verbatim>\<open>choose_extra_bins\<close>\<close>

text \<open>
  Claim C7. \<^verbatim>\<open>choose_extra_bins\<close> alternates between the two pools, starting with the upper
  one, stops when \<^verbatim>\<open>num_bins\<close> bins are chosen or both pools are empty, and takes the
  remaining picks from the other pool when one runs out. As a closed form: of the
  \<open>total = min(num_bins, all candidates)\<close> picks, the lower pool gives \<open>total div 2\<close>, or more
  when the upper pool has fewer than the other half, or all it has when that is less; the
  upper pool gives the rest. In particular, when each pool holds at least
  \<open>ceil(num_bins / 2)\<close> candidates and \<^verbatim>\<open>num_bins\<close> is not negative, the numbers of upper and
  of lower picks differ by at most one.
\<close>

theorem choose_extra_bins_alternates:
  "choose_extra_bins potential_lowers potential_uppers num_bins =
     (let total = min (nat num_bins) (length potential_lowers + length potential_uppers);
          from_lower = min (length potential_lowers)
                         (max (total div 2) (total - length potential_uppers))
      in (drop (length potential_lowers - from_lower) potential_lowers,
          take (total - from_lower) potential_uppers))
   \<and> (0 \<le> num_bins \<and> (num_bins + 1) div 2 \<le> int (length potential_lowers)
        \<and> (num_bins + 1) div 2 \<le> int (length potential_uppers) \<longrightarrow>
      \<bar>int (length (snd (choose_extra_bins potential_lowers potential_uppers num_bins)))
        - int (length (fst (choose_extra_bins potential_lowers potential_uppers num_bins)))\<bar> \<le> 1)"
proof (intro conjI impI)
  show "choose_extra_bins potential_lowers potential_uppers num_bins =
     (let total = min (nat num_bins) (length potential_lowers + length potential_uppers);
          from_lower = min (length potential_lowers)
                         (max (total div 2) (total - length potential_uppers))
      in (drop (length potential_lowers - from_lower) potential_lowers,
          take (total - from_lower) potential_uppers))"
    by (simp add: choose_extra_bins_closed lower_picks_def Let_def)
next
  let ?a = "length potential_lowers" and ?b = "length potential_uppers"
  let ?k = "nat num_bins"
  assume h: "0 \<le> num_bins \<and> (num_bins + 1) div 2 \<le> int ?a \<and> (num_bins + 1) div 2 \<le> int ?b"
  then have a: "(?k + 1) div 2 \<le> ?a" and b: "(?k + 1) div 2 \<le> ?b" by linarith+
  have T: "min ?k (?a + ?b) = ?k" using a b by linarith
  have "?k - ?b \<le> ?k div 2" using b by linarith
  then have m: "max (?k div 2) (?k - ?b) = ?k div 2" by (rule max_absorb1)
  have "?k div 2 \<le> ?a" using a by linarith
  then have l: "lower_picks True ?k ?a ?b = ?k div 2"
    unfolding lower_picks_def Let_def T by (simp add: m)
  have "length (fst (choose_extra_bins potential_lowers potential_uppers num_bins)) = ?k div 2"
    by (simp add: choose_extra_bins_lengths l)
  moreover have "length (snd (choose_extra_bins potential_lowers potential_uppers num_bins)) = ?k - ?k div 2"
    by (simp add: choose_extra_bins_lengths l T)
  ultimately show "\<bar>int (length (snd (choose_extra_bins potential_lowers potential_uppers num_bins)))
        - int (length (fst (choose_extra_bins potential_lowers potential_uppers num_bins)))\<bar> \<le> 1"
    by linarith
qed

text \<open>Three lower and two upper candidates, four picks: two from each pool.\<close>

theorem choose_extra_bins_alternates_witness:
  "choose_extra_bins [(98, 99), (96, 97), (94, 95)] [(110, 111), (112, 113)] 4
     = ([(96, 97), (94, 95)], [(110, 111), (112, 113)])
   \<and> (0::int) \<le> 4 \<and> ((4::int) + 1) div 2 \<le> int (length [(98, 99), (96, 97), (94, 95::int)])
   \<and> \<bar>int (length (snd (choose_extra_bins [(98, 99), (96, 97), (94, 95)] [(110, 111), (112, 113)] 4)))
        - int (length (fst (choose_extra_bins [(98, 99), (96, 97), (94, 95)] [(110, 111), (112, 113)] 4)))\<bar> \<le> 1"
  using choose_extra_bins_alternates [of "[(98, 99), (96, 97), (94, 95)]" "[(110, 111), (112, 113)]" 4]
  by (simp add: Let_def)

text \<open>
  Claim C10. The two lists that \<^verbatim>\<open>choose_extra_bins\<close> returns hold together exactly
  \<open>min(max(num_bins, 0), len(potential_lowers) + len(potential_uppers))\<close> bins; every returned
  lower bin is an element of \<^verbatim>\<open>potential_lowers\<close>, every returned upper bin an element of
  \<^verbatim>\<open>potential_uppers\<close>, and the upper picks are a prefix of \<^verbatim>\<open>potential_uppers\<close>.
\<close>

theorem choose_extra_bins_size_and_origin:
  "int (length (fst (choose_extra_bins potential_lowers potential_uppers num_bins))
        + length (snd (choose_extra_bins potential_lowers potential_uppers num_bins)))
     = min (max num_bins 0) (int (length potential_lowers + length potential_uppers))
   \<and> set (fst (choose_extra_bins potential_lowers potential_uppers num_bins)) \<subseteq> set potential_lowers
   \<and> set (snd (choose_extra_bins potential_lowers potential_uppers num_bins)) \<subseteq> set potential_uppers
   \<and> snd (choose_extra_bins potential_lowers potential_uppers num_bins)
       = take (length (snd (choose_extra_bins potential_lowers potential_uppers num_bins))) potential_uppers"
proof (intro conjI)
  show "int (length (fst (choose_extra_bins potential_lowers potential_uppers num_bins))
        + length (snd (choose_extra_bins potential_lowers potential_uppers num_bins)))
     = min (max num_bins 0) (int (length potential_lowers + length potential_uppers))"
    unfolding choose_extra_bins_total by linarith
  show "set (fst (choose_extra_bins potential_lowers potential_uppers num_bins)) \<subseteq> set potential_lowers"
    by (simp add: choose_extra_bins_closed set_drop_subset)
  show "set (snd (choose_extra_bins potential_lowers potential_uppers num_bins)) \<subseteq> set potential_uppers"
    by (simp add: choose_extra_bins_closed set_take_subset)
  show "snd (choose_extra_bins potential_lowers potential_uppers num_bins)
       = take (length (snd (choose_extra_bins potential_lowers potential_uppers num_bins))) potential_uppers"
    unfolding choose_extra_bins_lengths(2) by (simp add: choose_extra_bins_closed)
qed

section \<open>The binned distribution\<close>

subsection \<open>When the call returns\<close>

text \<open>
  For a sample whose lower and upper quantile values differ, line 382 gives a width of at
  least one, and lines 383 and 384 keep it there.
\<close>

lemma ceil_bin_width_pos:
  assumes "3 \<le> num_bins" "lower_end fp num_bins tu < upper_end fp num_bins tu"
  shows "1 \<le> ceil_bin_width fp num_bins tu"
proof -
  have "(0::rat) < of_int (upper_end fp num_bins tu - lower_end fp num_bins tu) / of_int (num_bins - 2)"
    using assms by simp
  then have "0 < ceil_bin_width fp num_bins tu"
    unfolding ceil_bin_width_def by (simp only: zero_less_ceiling)
  then show ?thesis by simp
qed

text \<open>Lines 383 and 384 turn no width into zero and leave a zero width as it is.\<close>

lemma bin_width_zero_iff:
  "bin_width fp num_bins tu = 0 \<longleftrightarrow> ceil_bin_width fp num_bins tu = 0"
  by (auto simp: bin_width_def Let_def)

lemma bin_width_pos:
  "1 \<le> ceil_bin_width fp num_bins tu \<Longrightarrow> 1 \<le> bin_width fp num_bins tu"
  by (auto simp: bin_width_def Let_def)

lemma bins_within_nonneg:
  assumes "1 \<le> bin_width fp num_bins tu" "lower_end fp num_bins tu \<le> upper_end fp num_bins tu"
  shows "0 \<le> bins_within fp num_bins tu"
  unfolding bins_within_def using assms by (simp add: pos_imp_zdiv_nonneg_iff)

text \<open>With three bins or more no statement of the call raises.\<close>

lemma binned_intervals_returns:
  assumes "3 \<le> num_bins"
  shows "binned_intervals fp num_bins tu = Inr (all_bins fp num_bins tu)"
  using assms by (simp add: binned_intervals_def)

text \<open>
  With equal lower and upper quantile values the width of line 382 is zero, and it is zero
  still when line 385 divides by it.
\<close>

lemma equal_quantile_values_zero_width:
  assumes "lower_end fp num_bins tu = upper_end fp num_bins tu"
  shows "ceil_bin_width fp num_bins tu = 0"
    and "bin_width fp num_bins tu = 0"
    and "bins_within fp num_bins tu = 0"
proof -
  show w: "ceil_bin_width fp num_bins tu = 0"
    using assms by (simp add: ceil_bin_width_def)
  then show b: "bin_width fp num_bins tu = 0"
    by (simp add: bin_width_zero_iff)
  then show "bins_within fp num_bins tu = 0"
    by (simp add: bins_within_def)
qed

subsection \<open>The number of bins\<close>

lemma length_core_bins: "length (core_bins fp num_bins tu) = nat (bins_within fp num_bins tu)"
  by (simp add: core_bins_def)

lemma length_all_bins:
  "length (all_bins fp num_bins tu)
     = 2 + nat (bins_within fp num_bins tu)
       + min (nat (diff_bins fp num_bins tu))
           (length (fst (potential_bins fp num_bins tu)) + length (snd (potential_bins fp num_bins tu)))"
proof -
  have "length (fst (extra_bins fp num_bins tu)) + length (snd (extra_bins fp num_bins tu))
        = min (nat (diff_bins fp num_bins tu))
           (length (fst (potential_bins fp num_bins tu)) + length (snd (potential_bins fp num_bins tu)))"
    unfolding extra_bins_def by (rule choose_extra_bins_total)
  then show ?thesis by (simp add: all_bins_def Let_def length_core_bins)
qed

text \<open>
  Claim C1, as stated: for every sample and every \<^verbatim>\<open>num_bins >= 3\<close> the assembled bin list
  has exactly \<^verbatim>\<open>num_bins\<close> entries. It fails for six cases with the two durations 0 and 1
  and ten bins: the core has two bins of width one, no candidate lies strictly between the
  core and the extremes, and the list has four entries.
\<close>

theorem number_of_bins_counterexample:
  "(3::int) \<le> 10
   \<and> binned_intervals fp_two 10 ''DAYS'' = Inr [(0, -1), (0, 0), (1, 1), (2, 1)]
   \<and> length [(0, -1), (0, 0), (1, 1), (2, 1 :: int)] \<noteq> 10"
  by code_simp

text \<open>
  Claim C1, amended: for \<^verbatim>\<open>num_bins >= 3\<close> and a sample whose lower quantile value is below
  its upper one, the call returns a bin list of
  \<open>2 + bins_within + min(max(diff_bins, 0), number of candidates)\<close> entries; that is
  \<^verbatim>\<open>num_bins\<close> exactly when \<^verbatim>\<open>diff_bins\<close> is not negative and the two pools together hold
  at least \<^verbatim>\<open>diff_bins\<close> candidates.
\<close>

theorem number_of_bins:
  assumes "3 \<le> num_bins" "lower_end fp num_bins time_unit < upper_end fp num_bins time_unit"
  shows "binned_intervals fp num_bins time_unit = Inr (all_bins fp num_bins time_unit)
       \<and> int (length (all_bins fp num_bins time_unit))
           = 2 + bins_within fp num_bins time_unit
             + min (max (diff_bins fp num_bins time_unit) 0)
                 (int (length (fst (potential_bins fp num_bins time_unit))
                       + length (snd (potential_bins fp num_bins time_unit))))
       \<and> (int (length (all_bins fp num_bins time_unit)) = num_bins \<longleftrightarrow>
            0 \<le> diff_bins fp num_bins time_unit
            \<and> diff_bins fp num_bins time_unit
                \<le> int (length (fst (potential_bins fp num_bins time_unit))
                        + length (snd (potential_bins fp num_bins time_unit))))"
proof -
  let ?c = "length (fst (potential_bins fp num_bins time_unit))
            + length (snd (potential_bins fp num_bins time_unit))"
  let ?d = "diff_bins fp num_bins time_unit"
  let ?w = "bins_within fp num_bins time_unit"
  have w1: "1 \<le> ceil_bin_width fp num_bins time_unit" using assms by (rule ceil_bin_width_pos)
  then have ret: "binned_intervals fp num_bins time_unit = Inr (all_bins fp num_bins time_unit)"
    using assms(1) by (simp add: binned_intervals_returns)
  have "1 \<le> bin_width fp num_bins time_unit" using w1 by (rule bin_width_pos)
  then have w: "0 \<le> ?w" using assms(2) by (simp add: bins_within_nonneg)
  have d: "?d = num_bins - 2 - ?w" by (simp add: diff_bins_def)
  have len: "int (length (all_bins fp num_bins time_unit)) = 2 + ?w + int (min (nat ?d) ?c)"
    using w by (simp add: length_all_bins)
  have m: "int (min (nat ?d) ?c) = min (max ?d 0) (int ?c)" by linarith
  have iff: "(2 + ?w + min (max ?d 0) (int ?c) = num_bins) \<longleftrightarrow> (0 \<le> ?d \<and> ?d \<le> int ?c)"
    using w d by linarith
  show ?thesis using ret len m iff by simp
qed

text \<open>The durations 1 to 100 with ten bins: \<^verbatim>\<open>diff_bins\<close> is zero and the list has ten entries.\<close>

theorem number_of_bins_witness:
  "(3::int) \<le> 10
   \<and> lower_end fp_1_100 10 ''DAYS'' < upper_end fp_1_100 10 ''DAYS''
   \<and> binned_intervals fp_1_100 10 ''DAYS'' = Inr (all_bins fp_1_100 10 ''DAYS'')
   \<and> int (length (all_bins fp_1_100 10 ''DAYS'')) = 10"
proof -
  have h1: "(3::int) \<le> 10" by simp
  have h2: "lower_end fp_1_100 10 ''DAYS'' < upper_end fp_1_100 10 ''DAYS''" by code_simp
  have d: "diff_bins fp_1_100 10 ''DAYS'' = 0" by code_simp
  show ?thesis using number_of_bins [OF h1 h2] h2 by (simp add: d)
qed

subsection \<open>Contiguity and the sum of the counts\<close>

text \<open>
  Claim C2: for every sample and every \<^verbatim>\<open>num_bins >= 3\<close> the bin list is contiguous, gapless
  and ascending. The source takes lower extra bins from the end of \<^verbatim>\<open>potential_lowers\<close>,
  which is the candidate farthest from the core, while it takes upper extra bins from the
  front of \<^verbatim>\<open>potential_uppers\<close>, the candidate nearest to the core. For \<open>fp_gap\<close>
  and ten bins the lower pool is \<open>[(98, 99), (96, 97), (94, 95)]\<close> and one lower bin is
  chosen: it is \<open>(94, 95)\<close>, and the durations 96 to 99 lie in no bin.
\<close>

theorem gap_after_lower_extra_bin:
  "binned_intervals fp_gap 10 ''DAYS'' =
     Inr [(0, 93), (94, 95), (100, 101), (102, 103), (104, 105), (106, 107), (108, 109),
          (110, 111), (112, 113), (114, 209)]
   \<and> \<not> contiguous [(0, 93), (94, 95), (100, 101), (102, 103), (104, 105), (106, 107), (108, 109),
          (110, 111), (112, 113), (114, 209)]"
  by code_simp

text \<open>
  Claim C5: for every sample and every \<^verbatim>\<open>num_bins >= 3\<close>, with exact interval counts, the
  counts of the returned bins add up to the sample size. For \<open>fp_gap\<close>, whose data model
  counts exactly, the hundred cases give a table whose counts add up to 97: the three cases
  with durations 96, 97 and 98 fall into the gap left by the lower extra bin.
\<close>

theorem counts_miss_cases_in_gap:
  "compute_binned_distribution_case_durations fp_gap 10 ''DAYS'' =
     Inr [((Some 0, Some 93), 1), ((Some 94, Some 95), 0),
          ((Some 100, Some 101), 19), ((Some 102, Some 103), 18),
          ((Some 104, Some 105), 18), ((Some 106, Some 107), 18),
          ((Some 108, Some 109), 19), ((Some 110, Some 111), 2),
          ((Some 112, Some 113), 1), ((Some 114, Some 209), 1)]
   \<and> total_cases [((Some 0, Some 93), 1), ((Some 94, Some 95), 0),
          ((Some 100, Some 101), 19), ((Some 102, Some 103), 18),
          ((Some 104, Some 105), 18), ((Some 106, Some 107), 18),
          ((Some 108, Some 109), 19), ((Some 110, Some 111), 2),
          ((Some 112, Some 113), 1), ((Some 114, Some 209), 1)] = 97
   \<and> length gap_durations = 100
   \<and> count_between gap_durations (Some 96, Some 99) = 3"
  by code_simp

subsection \<open>Degenerate samples and small bin counts\<close>

text \<open>
  Claim C3: for a sample of equal values and \<^verbatim>\<open>num_bins >= 3\<close> the width is floored to at
  least one before use, no division by zero happens and \<^verbatim>\<open>num_bins\<close> bins are produced.
  For twenty cases of duration 7 and ten bins, line 382 gives the width 0 and nothing
  raises it: it is the divisor of line 383, and after lines 383 and 384 it is still 0 and is
  the divisor of line 385. Both divisions by zero give a \<^verbatim>\<open>RuntimeWarning\<close>, and the call
  returns ten rows: nine times the empty interval from 7 to 6, and the interval from 7 to
  7 with all twenty cases.
\<close>

theorem all_equal_sample_divides_by_zero:
  "ceil_bin_width fp_const 10 ''DAYS'' = 0
   \<and> bin_width fp_const 10 ''DAYS'' = 0
   \<and> compute_binned_distribution_case_durations fp_const 10 ''DAYS'' =
       Inr [((Some 7, Some 6), 0), ((Some 7, Some 6), 0), ((Some 7, Some 6), 0),
            ((Some 7, Some 6), 0), ((Some 7, Some 6), 0), ((Some 7, Some 6), 0),
            ((Some 7, Some 6), 0), ((Some 7, Some 6), 0), ((Some 7, Some 6), 0),
            ((Some 7, Some 7), 20)]"
  by code_simp

text \<open>
  Claim C4, as stated: every call with \<^verbatim>\<open>num_bins < 3\<close> fails with an
  \<^verbatim>\<open>InvalidConfiguration\<close> error. The source does not check \<^verbatim>\<open>num_bins\<close>; with two bins
  line 382 divides by \<^verbatim>\<open>num_bins - 2\<close>.
\<close>

theorem small_num_bins_counterexample:
  "compute_binned_distribution_case_durations fp_1_100 2 ''DAYS'' \<noteq> Inl InvalidConfiguration"
  by code_simp

text \<open>
  Claim C4, amended: a call with \<^verbatim>\<open>num_bins = 0\<close> fails with a \<^verbatim>\<open>ZeroDivisionError\<close>
  (line 369), and a call with \<^verbatim>\<open>num_bins = 2\<close> fails at line 382 with an
  \<^verbatim>\<open>OverflowError\<close>, or with a \<^verbatim>\<open>ValueError\<close> when the lower and the upper quantile value
  are equal; neither returns a table. The source has no \<^verbatim>\<open>InvalidConfiguration\<close> error and
  no check of \<^verbatim>\<open>num_bins\<close>.
\<close>

theorem small_num_bins_errors:
  "compute_binned_distribution_case_durations fp 0 time_unit = Inl ZeroDivisionError
   \<and> compute_binned_distribution_case_durations fp 2 time_unit =
       (if upper_end fp 2 time_unit = lower_end fp 2 time_unit then Inl ValueError
        else Inl OverflowError)"
  by (simp add: compute_binned_distribution_case_durations_def binned_intervals_def)

subsection \<open>The outer bounds\<close>

lemma row_bins_of_rows:
  "row_bins (get_num_cases_with_durations fp (map (\<lambda>(lo, hi). (Some lo, Some hi)) bins) tu) = bins"
  by (induction bins) (auto simp: row_bins_def get_num_cases_with_durations_def)

text \<open>
  Claim C6. For \<^verbatim>\<open>num_bins >= 3\<close> the first returned bin starts at the sample minimum (the
  value of the quantile 0) and the last one ends at the sample maximum (the value of the
  quantile 1). With three bins or more the call returns for every sample, and the rows of
  the returned table carry the assembled bins, in order.
\<close>

theorem first_low_last_high:
  assumes "3 \<le> num_bins"
  shows "binned_intervals fp num_bins time_unit = Inr (all_bins fp num_bins time_unit)
       \<and> fst (hd (all_bins fp num_bins time_unit)) = min_val fp time_unit
       \<and> snd (last (all_bins fp num_bins time_unit)) = max_val fp time_unit
       \<and> (\<exists>rows. compute_binned_distribution_case_durations fp num_bins time_unit = Inr rows
              \<and> row_bins rows = all_bins fp num_bins time_unit)"
proof -
  have ret: "binned_intervals fp num_bins time_unit = Inr (all_bins fp num_bins time_unit)"
    using assms by (rule binned_intervals_returns)
  have "fst (hd (all_bins fp num_bins time_unit)) = min_val fp time_unit"
    by (simp add: all_bins_def Let_def)
  moreover have "snd (last (all_bins fp num_bins time_unit)) = max_val fp time_unit"
    by (simp add: all_bins_def Let_def)
  moreover have "\<exists>rows. compute_binned_distribution_case_durations fp num_bins time_unit = Inr rows
              \<and> row_bins rows = all_bins fp num_bins time_unit"
    by (simp add: compute_binned_distribution_case_durations_def ret row_bins_of_rows)
  ultimately show ?thesis using ret by simp
qed

text \<open>
  Two inputs: the durations 1 to 100, and the twenty cases of duration 7, where the width
  is zero.
\<close>

theorem first_low_last_high_witness:
  "(3::int) \<le> 10
   \<and> min_val fp_1_100 ''DAYS'' = 1 \<and> max_val fp_1_100 ''DAYS'' = 100
   \<and> fst (hd (all_bins fp_1_100 10 ''DAYS'')) = 1
   \<and> snd (last (all_bins fp_1_100 10 ''DAYS'')) = 100
   \<and> binned_intervals fp_const 10 ''DAYS'' = Inr (all_bins fp_const 10 ''DAYS'')
   \<and> fst (hd (all_bins fp_const 10 ''DAYS'')) = 7
   \<and> snd (last (all_bins fp_const 10 ''DAYS'')) = 7"
proof -
  have h1: "(3::int) \<le> 10" by simp
  have mn: "min_val fp_1_100 ''DAYS'' = 1" by code_simp
  have mx: "max_val fp_1_100 ''DAYS'' = 100" by code_simp
  have cn: "min_val fp_const ''DAYS'' = 7" by code_simp
  have cx: "max_val fp_const ''DAYS'' = 7" by code_simp
  show ?thesis
    using first_low_last_high [OF h1, of fp_1_100 "''DAYS''"]
      first_low_last_high [OF h1, of fp_const "''DAYS''"]
    by (simp add: mn mx cn cx)
qed

subsection \<open>The scenario of the durations 1 to 100\<close>

text \<open>
  Claim C8. For the durations 1 to 100, whose quantile values at 1/20, 19/20, 0 and 1 are
  5, 95, 1 and 100, with exact counts, ten bins and the time unit \<^verbatim>\<open>DAYS\<close>, the call
  returns exactly ten bins, contiguous, from 1 to 100, and the counts add up to 100.
\<close>

theorem scenario_1_to_100:
  "quantile_value fp_1_100 ''DAYS'' (lower_percentile 10) = 5
   \<and> quantile_value fp_1_100 ''DAYS'' (upper_percentile 10) = 95
   \<and> quantile_value fp_1_100 ''DAYS'' min_percentile = 1
   \<and> quantile_value fp_1_100 ''DAYS'' max_percentile = 100
   \<and> compute_binned_distribution_case_durations fp_1_100 10 ''DAYS'' =
       Inr [((Some 1, Some 4), 4), ((Some 5, Some 15), 11),
            ((Some 16, Some 26), 11), ((Some 27, Some 37), 11),
            ((Some 38, Some 48), 11), ((Some 49, Some 59), 11),
            ((Some 60, Some 70), 11), ((Some 71, Some 81), 11),
            ((Some 82, Some 92), 11), ((Some 93, Some 100), 8)]
   \<and> (case compute_binned_distribution_case_durations fp_1_100 10 ''DAYS'' of
         Inl e \<Rightarrow> False
       | Inr rows \<Rightarrow>
           length rows = 10 \<and> contiguous (row_bins rows)
           \<and> fst (hd (row_bins rows)) = 1 \<and> snd (last (row_bins rows)) = 100
           \<and> total_cases rows = 100)"
  by code_simp

subsection \<open>Determinism\<close>

text \<open>Every local variable is a function of the four quantile values.\<close>

lemma same_quantiles_same_bins:
  assumes "quantile_value fp1 tu min_percentile = quantile_value fp2 tu min_percentile"
    and "quantile_value fp1 tu max_percentile = quantile_value fp2 tu max_percentile"
    and "quantile_value fp1 tu (lower_percentile n) = quantile_value fp2 tu (lower_percentile n)"
    and "quantile_value fp1 tu (upper_percentile n) = quantile_value fp2 tu (upper_percentile n)"
  shows "ceil_bin_width fp1 n tu = ceil_bin_width fp2 n tu"
    and "all_bins fp1 n tu = all_bins fp2 n tu"
proof -
  have q: "min_val fp1 tu = min_val fp2 tu" "max_val fp1 tu = max_val fp2 tu"
    "lower_end fp1 n tu = lower_end fp2 n tu" "upper_end fp1 n tu = upper_end fp2 n tu"
    using assms by (simp_all add: min_val_def max_val_def lower_end_def upper_end_def)
  show c: "ceil_bin_width fp1 n tu = ceil_bin_width fp2 n tu"
    by (simp add: ceil_bin_width_def q)
  have w: "bin_width fp1 n tu = bin_width fp2 n tu"
    by (simp add: bin_width_def c q)
  have b: "bins_within fp1 n tu = bins_within fp2 n tu"
    by (simp add: bins_within_def w q)
  have cb: "core_bins fp1 n tu = core_bins fp2 n tu"
    by (simp add: core_bins_def w b q)
  have d: "diff_bins fp1 n tu = diff_bins fp2 n tu"
    by (simp add: diff_bins_def b)
  have u: "upper_end_within fp1 n tu = upper_end_within fp2 n tu"
    by (simp add: upper_end_within_def w b q)
  have p: "potential_bins fp1 n tu = potential_bins fp2 n tu"
    by (simp add: potential_bins_def w d u q)
  have e: "extra_bins fp1 n tu = extra_bins fp2 n tu"
    by (simp add: extra_bins_def p d)
  have mi: "min_inner_bin fp1 n tu = min_inner_bin fp2 n tu"
    by (simp add: min_inner_bin_def Let_def e q)
  have ma: "max_inner_bin fp1 n tu = max_inner_bin fp2 n tu"
    by (simp add: max_inner_bin_def Let_def e u)
  show "all_bins fp1 n tu = all_bins fp2 n tu"
    by (simp add: all_bins_def Let_def mi ma e cb q)
qed

text \<open>
  Claim C9. Two calls with the same \<^verbatim>\<open>num_bins\<close> and the same \<^verbatim>\<open>time_unit\<close>, against data
  models that give the same four quantile values and the same counts for the intervals of
  the bin list, return the same result.
\<close>

theorem same_answers_same_result:
  assumes "quantile_value fp1 time_unit min_percentile = quantile_value fp2 time_unit min_percentile"
    and "quantile_value fp1 time_unit max_percentile = quantile_value fp2 time_unit max_percentile"
    and "quantile_value fp1 time_unit (lower_percentile num_bins)
         = quantile_value fp2 time_unit (lower_percentile num_bins)"
    and "quantile_value fp1 time_unit (upper_percentile num_bins)
         = quantile_value fp2 time_unit (upper_percentile num_bins)"
    and "\<forall>b \<in> set (all_bins fp1 num_bins time_unit).
           num_cases fp1 time_unit (Some (fst b), Some (snd b))
           = num_cases fp2 time_unit (Some (fst b), Some (snd b))"
  shows "compute_binned_distribution_case_durations fp1 num_bins time_unit
         = compute_binned_distribution_case_durations fp2 num_bins time_unit"
proof -
  have e: "lower_end fp1 num_bins time_unit = lower_end fp2 num_bins time_unit"
    "upper_end fp1 num_bins time_unit = upper_end fp2 num_bins time_unit"
    using assms(3,4) by (simp_all add: lower_end_def upper_end_def)
  have a: "all_bins fp1 num_bins time_unit = all_bins fp2 num_bins time_unit"
    using assms(1-4) by (rule same_quantiles_same_bins(2))
  have b: "binned_intervals fp1 num_bins time_unit = binned_intervals fp2 num_bins time_unit"
    by (simp only: binned_intervals_def e a)
  have r: "get_num_cases_with_durations fp1
             (map (\<lambda>(lo, hi). (Some lo, Some hi)) (all_bins fp1 num_bins time_unit)) time_unit
           = get_num_cases_with_durations fp2
             (map (\<lambda>(lo, hi). (Some lo, Some hi)) (all_bins fp1 num_bins time_unit)) time_unit"
    using assms(5) unfolding get_num_cases_with_durations_def
    by (auto simp: split_beta)
  show ?thesis
    unfolding compute_binned_distribution_case_durations_def b[symmetric]
    using r by (auto simp: binned_intervals_def split: sum.splits)
qed

text \<open>
  The two data models for the durations 1 to 100 differ, but not in what a call with ten
  bins asks; the two results are equal.
\<close>

theorem same_answers_same_result_witness:
  "quantile_value fp_1_100 ''DAYS'' (1 / 2) \<noteq> quantile_value fp_1_100_variant ''DAYS'' (1 / 2)
   \<and> num_cases fp_1_100 ''DAYS'' (None, None) \<noteq> num_cases fp_1_100_variant ''DAYS'' (None, None)
   \<and> compute_binned_distribution_case_durations fp_1_100 10 ''DAYS''
       = compute_binned_distribution_case_durations fp_1_100_variant 10 ''DAYS''"
proof -
  have q: "quantile_value fp_1_100 ''DAYS'' min_percentile = quantile_value fp_1_100_variant ''DAYS'' min_percentile"
    "quantile_value fp_1_100 ''DAYS'' max_percentile = quantile_value fp_1_100_variant ''DAYS'' max_percentile"
    "quantile_value fp_1_100 ''DAYS'' (lower_percentile 10) = quantile_value fp_1_100_variant ''DAYS'' (lower_percentile 10)"
    "quantile_value fp_1_100 ''DAYS'' (upper_percentile 10) = quantile_value fp_1_100_variant ''DAYS'' (upper_percentile 10)"
    by (simp_all add: fp_1_100_def fp_1_100_variant_def min_percentile_def max_percentile_def
          lower_percentile_def upper_percentile_def)
  have n: "\<forall>b \<in> set (all_bins fp_1_100 10 ''DAYS'').
           num_cases fp_1_100 ''DAYS'' (Some (fst b), Some (snd b))
           = num_cases fp_1_100_variant ''DAYS'' (Some (fst b), Some (snd b))"
    by (simp add: fp_1_100_def fp_1_100_variant_def)
  have d1: "quantile_value fp_1_100 ''DAYS'' (1 / 2) \<noteq> quantile_value fp_1_100_variant ''DAYS'' (1 / 2)"
    by (simp add: fp_1_100_def fp_1_100_variant_def)
  have d2: "num_cases fp_1_100 ''DAYS'' (None, None) \<noteq> num_cases fp_1_100_variant ''DAYS'' (None, None)"
    by (simp add: fp_1_100_def fp_1_100_variant_def count_between_def)
  show ?thesis using same_answers_same_result [OF q n] d1 d2 by simp
qed


end
